theory Spec2Isabelle
  imports Main
begin

section \<open>Python values and errors\<close>

text \<open>
  The values that cross the boundary of \<^verbatim>\<open>wrapper.py\<close>: what the browser's
  \<^verbatim>\<open>postSomething\<close> returns and what a decoded activity message holds.  A dict is an
  association list with string keys, read with \<open>map_of\<close>.
\<close>

datatype pyval =
    PNone
  | PBool bool
  | PInt int
  | PStr string
  | PList "pyval list"
  | PDict "(string \<times> pyval) list"

text \<open>
  The exceptions the module can raise or let through; \<open>ValueError\<close> carries what it
  names (the site, for \<^verbatim>\<open>login\<close>).
\<close>

datatype error =
    AssertionError
  | KeyError string
  | TypeError
  | AttributeError
  | ValueError string
  | RuntimeError
  | BrowserError
  | OverflowError

section \<open>The rate-limit pattern\<close>

text \<open>
  \<^verbatim>\<open>TOO_FAST_RE = "You can perform this action again in (\d+) seconds"\<close>, used with
  \<^verbatim>\<open>re.match\<close>: anchored at the start of the response, free at its end.  The group
  \<^verbatim>\<open>(\d+)\<close> is greedy and the character after it has to be a space, so the group is
  the longest run of ASCII digits after the prefix.
\<close>

definition is_digit :: "char \<Rightarrow> bool" where
  "is_digit c = (48 \<le> (of_char c :: nat) \<and> (of_char c :: nat) \<le> 57)"

fun strip_prefix :: "string \<Rightarrow> string \<Rightarrow> string option" where
  "strip_prefix [] s = Some s"
| "strip_prefix (p # ps) [] = None"
| "strip_prefix (p # ps) (c # cs) = (if p = c then strip_prefix ps cs else None)"

definition TOO_FAST_HEAD :: string where
  "TOO_FAST_HEAD = ''You can perform this action again in ''"

definition TOO_FAST_TAIL :: string where
  "TOO_FAST_TAIL = '' seconds''"

definition too_fast_match :: "string \<Rightarrow> string option" where
  "too_fast_match response =
     (case strip_prefix TOO_FAST_HEAD response of
        None \<Rightarrow> None
      | Some rest \<Rightarrow>
          (let ds = takeWhile is_digit rest in
           if ds = [] then None
           else (case strip_prefix TOO_FAST_TAIL (dropWhile is_digit rest) of
                   None \<Rightarrow> None
                 | Some _ \<Rightarrow> Some ds)))"

text \<open>\<^verbatim>\<open>int(match.group(1))\<close> on a run of digits.\<close>

definition digit_val :: "char \<Rightarrow> nat" where
  "digit_val c = of_char c - 48"

definition py_int :: "string \<Rightarrow> int" where
  "py_int ds = foldl (\<lambda>n c. 10 * n + int (digit_val c)) 0 ds"




section \<open>The session object\<close>

text \<open>What the queue holds: a \<^verbatim>\<open>(room_id, text)\<close> tuple or the class \<^verbatim>\<open>SystemExit\<close>.\<close>

datatype qitem = Msg string string | SystemExit

text \<open>
  The thread \<^verbatim>\<open>message_sender\<close>.  \<open>Started\<close>: \<^verbatim>\<open>thread.start()\<close> was called and
  \<^verbatim>\<open>_worker\<close> has not run its first line; \<open>Waiting\<close>: at \<^verbatim>\<open>message_queue.get()\<close>;
  \<open>Sending room text attempt\<close>: inside the \<^verbatim>\<open>while not sent\<close> loop, before the next
  \<^verbatim>\<open>postSomething\<close>; \<open>Exited\<close>: \<^verbatim>\<open>_worker\<close> returned; \<open>Died e\<close>: it raised.
\<close>

datatype thread_state =
    NotStarted
  | Started
  | Waiting
  | Sending string string int
  | Exited
  | Died error

datatype brcall =
    LoginSEOpenID string string
  | LoginSECOM
  | LoginChatSE
  | LoginSO
  | LoginMSE
  | PostSomething string string
  | JoinRoom string

datatype logmsg =
    MSOWarning
  | LoggingIn
  | LoggedIn
  | LoggedOut
  | Queued string string
  | QueueLength nat
  | WorkerOnDuty
  | WorkerExits
  | NowServing int string string
  | AttemptStart int
  | Throttled int int
  | UnknownReason int string
  | DuplicateWait int int
  | WaitingFor int int
  | Success int int
  | Unrecognized pyval

text \<open>Everything the object does to the outside, in the order it does it.\<close>

datatype effect = Br brcall | Sleep int | Log logmsg

record sechat =
  site :: string
  previous :: "string option"
  message_queue :: "qitem list"
  logged_in :: bool
  messages :: int
  thread :: thread_state
  effects :: "effect list"

definition emit :: "effect list \<Rightarrow> sechat \<Rightarrow> sechat" where
  "emit es s = s\<lparr>effects := effects s @ es\<rparr>"

section \<open>The send loop\<close>

definition BACKOFF_MULTIPLIER :: int where
  "BACKOFF_MULTIPLIER = 2"

definition BACKOFF_ADDER :: int where
  "BACKOFF_ADDER = 5"

definition post_url :: "string \<Rightarrow> string" where
  "post_url room_id = ''/chats/'' @ room_id @ ''/messages/new''"

text \<open>
  The \<^verbatim>\<open>if isinstance(response, str) ... elif isinstance(response, dict) ...\<close> part
  of one iteration: the new \<^verbatim>\<open>wait\<close>, the new \<^verbatim>\<open>text\<close> and what was logged.
  \<^verbatim>\<open>wait\<close> is 0 when no branch sets it.
\<close>

definition judge :: "int \<Rightarrow> string \<Rightarrow> pyval \<Rightarrow> error + (int \<times> string \<times> effect list)" where
  "judge attempt text response =
     (case response of
        PStr r \<Rightarrow>
          (case too_fast_match r of
             Some ds \<Rightarrow>
               Inr (py_int ds * BACKOFF_MULTIPLIER + BACKOFF_ADDER, text,
                    [Log (Throttled attempt (py_int ds))])
           | None \<Rightarrow>
               Inr (BACKOFF_ADDER, text, [Log (UnknownReason attempt r)]))
      | PDict d \<Rightarrow>
          (case map_of d ''id'' of
             None \<Rightarrow> Inl (KeyError ''id'')
           | Some v \<Rightarrow>
               if v = PNone
               then Inr (BACKOFF_ADDER, text @ '' '',
                         [Log (DuplicateWait attempt BACKOFF_ADDER)])
               else Inr (0, text, []))
      | _ \<Rightarrow> Inr (0, text, []))"

text \<open>
  \<^verbatim>\<open>time.sleep(wait)\<close> with an integer argument.  The call is not in a
  \<^verbatim>\<open>try\<close>: it raises on a wait it cannot take, \<^verbatim>\<open>ValueError\<close> on a negative one
  and \<^verbatim>\<open>OverflowError\<close> on one too large for the interpreter's clock.  CPython
  counts the time in nanoseconds in 64 bits, so the largest whole number of seconds it
  takes is \<open>(2 ^ 63 - 1) div 10 ^ 9\<close>.
\<close>

definition SLEEP_MAX :: int where
  "SLEEP_MAX = 9223372036"

definition sleep :: "int \<Rightarrow> error option" where
  "sleep secs =
     (if secs < 0 then Some (ValueError ''sleep length must be non-negative'')
      else if SLEEP_MAX < secs then Some OverflowError
      else None)"

text \<open>
  The loop \<^verbatim>\<open>while not sent\<close>, run on the responses the browser gives to the
  successive posts.  When the responses are used up the thread stays in the loop
  (\<open>Sending\<close>), to be resumed with more of them.  An exception of
  \<^verbatim>\<open>response["id"]\<close> or of \<^verbatim>\<open>time.sleep\<close> is caught nowhere: it ends the thread.
\<close>

fun send_loop :: "string \<Rightarrow> string \<Rightarrow> int \<Rightarrow> pyval list \<Rightarrow> sechat \<Rightarrow> sechat \<times> pyval list" where
  "send_loop room_id text attempt [] s = (s\<lparr>thread := Sending room_id text attempt\<rparr>, [])"
| "send_loop room_id text attempt (response # rs) s =
     (let attempt = attempt + 1;
          s = emit [Log (AttemptStart attempt), Br (PostSomething (post_url room_id) text)] s
      in case judge attempt text response of
           Inl e \<Rightarrow> (s\<lparr>thread := Died e\<rparr>, rs)
         | Inr (wait, text, logged) \<Rightarrow>
             if wait \<noteq> 0
             then (let s = emit (logged @ [Log (WaitingFor attempt wait)]) s
                   in case sleep wait of
                        Some e \<Rightarrow> (s\<lparr>thread := Died e\<rparr>, rs)
                      | None \<Rightarrow> send_loop room_id text attempt rs (emit [Sleep wait] s))
             else (let s = emit (logged @ [Log (Success attempt BACKOFF_ADDER)])
                             (s\<lparr>previous := Some text\<rparr>)
                   in case sleep BACKOFF_ADDER of
                        Some e \<Rightarrow> (s\<lparr>thread := Died e\<rparr>, rs)
                      | None \<Rightarrow> (emit [Sleep BACKOFF_ADDER] (s\<lparr>thread := Waiting\<rparr>), rs)))"

text \<open>\<^verbatim>\<open>_actuallySendMessage\<close>; \<^verbatim>\<open>str(room_id)\<close> is the identity on a string.\<close>

definition actuallySendMessage :: "string \<Rightarrow> string \<Rightarrow> pyval list \<Rightarrow> sechat \<Rightarrow> sechat \<times> pyval list" where
  "actuallySendMessage room_id text rs s =
     (let text = (if Some text = previous s then '' '' @ text else text)
      in send_loop room_id text 0 rs s)"

text \<open>
  The outcome of one attempt, as the branches of the loop body tell them apart.  A dict
  without the key \<^verbatim>\<open>"id"\<close> has no outcome: \<^verbatim>\<open>response["id"]\<close> raises.
\<close>

datatype SendOutcome = Accepted | RateLimited int | Duplicate | UnknownFailure string

definition outcome :: "pyval \<Rightarrow> SendOutcome option" where
  "outcome response =
     (case response of
        PStr r \<Rightarrow>
          (case too_fast_match r of
             Some ds \<Rightarrow> Some (RateLimited (py_int ds))
           | None \<Rightarrow> Some (UnknownFailure r))
      | PDict d \<Rightarrow>
          (case map_of d ''id'' of
             None \<Rightarrow> None
           | Some v \<Rightarrow> if v = PNone then Some Duplicate else Some Accepted)
      | _ \<Rightarrow> Some Accepted)"

text \<open>\<^verbatim>\<open>isinstance(response, str)\<close> and \<^verbatim>\<open>isinstance(response, dict)\<close>.\<close>

fun is_str :: "pyval \<Rightarrow> bool" where
  "is_str (PStr r) = True"
| "is_str _ = False"

fun is_dict :: "pyval \<Rightarrow> bool" where
  "is_dict (PDict d) = True"
| "is_dict _ = False"

section \<open>Construction, login, logout, enqueueing\<close>

text \<open>
  A method returns \<open>(None, s)\<close> when it returns and \<open>(Some e, s)\<close> when it raises
  \<open>e\<close>; \<open>s\<close> is the object as the method leaves it.
\<close>

type_synonym 'e result = "'e option \<times> sechat"

definition and_then :: "error result \<Rightarrow> (sechat \<Rightarrow> error result) \<Rightarrow> error result" where
  "and_then r f = (case r of (Some e, s) \<Rightarrow> (Some e, s) | (None, s) \<Rightarrow> f s)"

text \<open>\<^verbatim>\<open>__init__\<close>; the thread object is created and not started.\<close>

definition init :: "string \<Rightarrow> sechat" where
  "init site0 =
     \<lparr>site = (if site0 = ''MSO'' then ''MSE'' else site0),
      previous = None,
      message_queue = [],
      logged_in = False,
      messages = 0,
      thread = NotStarted,
      effects = (if site0 = ''MSO'' then [Log MSOWarning] else [])\<rparr>"

text \<open>
  A call of a browser method.  The browser is not part of this module: \<open>br c\<close> is the
  exception the call \<open>c\<close> raises, if any.
\<close>

definition br_call :: "(brcall \<Rightarrow> error option) \<Rightarrow> brcall \<Rightarrow> sechat \<Rightarrow> error result" where
  "br_call br c s = (br c, emit [Br c] s)"

text \<open>\<^verbatim>\<open>Thread.start\<close>: a thread can be started once.\<close>

definition thread_start :: "sechat \<Rightarrow> error result" where
  "thread_start s =
     (if thread s = NotStarted then (None, s\<lparr>thread := Started\<rparr>) else (Some RuntimeError, s))"

definition login :: "(brcall \<Rightarrow> error option) \<Rightarrow> string \<Rightarrow> string \<Rightarrow> sechat \<Rightarrow> error result" where
  "login br username password s =
     (if logged_in s then (Some AssertionError, s)
      else
        and_then (br_call br (LoginSEOpenID username password) (emit [Log LoggingIn] s)) (\<lambda>s.
        and_then
          (if site s = ''SE'' then and_then (br_call br LoginSECOM s) (br_call br LoginChatSE)
           else if site s = ''SO'' then br_call br LoginSO s
           else if site s = ''MSE'' then br_call br LoginMSE s
           else (Some (ValueError (site s)), s)) (\<lambda>s.
        thread_start (emit [Log LoggedIn] (s\<lparr>logged_in := True\<rparr>)))))"

definition logout :: "sechat \<Rightarrow> error result" where
  "logout s =
     (if \<not> logged_in s then (Some AssertionError, s)
      else (None, (emit [Log LoggedOut]
                     (s\<lparr>message_queue := message_queue s @ [SystemExit]\<rparr>))\<lparr>logged_in := False\<rparr>))"

text \<open>\<^verbatim>\<open>__del__\<close>: the put is made only on an object that is still logged in.\<close>

definition dunder_del :: "sechat \<Rightarrow> error result" where
  "dunder_del s =
     (if logged_in s
      then (Some AssertionError, s\<lparr>message_queue := message_queue s @ [SystemExit]\<rparr>)
      else (None, s))"

definition sendMessage :: "string \<Rightarrow> string \<Rightarrow> sechat \<Rightarrow> error result" where
  "sendMessage room_id text s =
     (let s = s\<lparr>message_queue := message_queue s @ [Msg room_id text]\<rparr>
      in (None, emit [Log (Queued text room_id), Log (QueueLength (length (message_queue s)))] s))"

section \<open>The worker\<close>

text \<open>
  The loop \<^verbatim>\<open>while True\<close> of \<^verbatim>\<open>_worker\<close>.  \<^verbatim>\<open>message_queue.get()\<close> blocks on an
  empty queue: the thread stays \<open>Waiting\<close> and the responses not used are handed back.
\<close>

function worker_loop :: "pyval list \<Rightarrow> sechat \<Rightarrow> sechat \<times> pyval list" where
  "worker_loop rs s =
     (case message_queue s of
        [] \<Rightarrow> (s\<lparr>thread := Waiting\<rparr>, rs)
      | next # q \<Rightarrow>
          (case next of
             SystemExit \<Rightarrow> (emit [Log WorkerExits] (s\<lparr>message_queue := q, thread := Exited\<rparr>), rs)
           | Msg room_id text \<Rightarrow>
               (let s1 = s\<lparr>message_queue := q, messages := messages s + 1\<rparr>;
                    s2 = emit [Log (NowServing (messages s1) text room_id)] s1;
                    sr = actuallySendMessage room_id text rs s2
                in if thread (fst sr) = Waiting then worker_loop (snd sr) (fst sr) else sr)))"
  by pat_completeness auto
termination
proof (relation "measure (\<lambda>(rs, s). length (message_queue s))")
  show "wf (measure (\<lambda>(rs, s). length (message_queue s)))" by simp
next
  fix rs :: "pyval list" and s :: sechat and nxt q room_id msg s1 s2 sr
  assume q: "message_queue s = nxt # q"
    and s1: "s1 = s\<lparr>message_queue := q, messages := messages s + 1\<rparr>"
    and s2: "s2 = emit [Log (NowServing (messages s1) msg room_id)] s1"
    and sr: "sr = actuallySendMessage room_id msg rs s2"
  have keep: "message_queue (fst (send_loop r t a xs u)) = message_queue u" for r t a xs u
    by (induction r t a xs u rule: send_loop.induct)
      (auto simp: emit_def Let_def split: sum.splits prod.splits option.splits)
  have "message_queue (fst sr) = q"
    by (simp add: sr s2 s1 actuallySendMessage_def keep emit_def Let_def)
  then show "((snd sr, fst sr), (rs, s)) \<in> measure (\<lambda>(rs, s). length (message_queue s))"
    using q by simp
qed

text \<open>
  \<^verbatim>\<open>_worker\<close>, from wherever the thread stands, on the responses to its next posts.
\<close>

definition worker :: "pyval list \<Rightarrow> sechat \<Rightarrow> sechat \<times> pyval list" where
  "worker rs s =
     (case thread s of
        Started \<Rightarrow>
          if logged_in s then worker_loop rs (emit [Log WorkerOnDuty] (s\<lparr>thread := Waiting\<rparr>))
          else (s\<lparr>thread := Died AssertionError\<rparr>, rs)
      | Waiting \<Rightarrow> worker_loop rs s
      | Sending room_id text attempt \<Rightarrow>
          (let sr = send_loop room_id text attempt rs s
           in if thread (fst sr) = Waiting then worker_loop (snd sr) (fst sr) else sr)
      | _ \<Rightarrow> (s, rs))"

section \<open>A session as its callers and its thread interleave\<close>

text \<open>
  What happens to one object, in the order it happens: a call of \<^verbatim>\<open>login\<close>,
  \<^verbatim>\<open>logout\<close> or \<^verbatim>\<open>sendMessage\<close> by a caller (an exception goes to the caller and
  the object stays as the method left it), or the thread running on through the
  responses to its next posts.  The queue is a \<^verbatim>\<open>Queue.Queue\<close>, so a \<^verbatim>\<open>put\<close> falls
  before or after a \<^verbatim>\<open>get\<close>, and the send loop does not touch the queue.
\<close>

datatype call = Login string string | Logout | SendMessage string string | Work "pyval list"

fun step :: "(brcall \<Rightarrow> error option) \<Rightarrow> sechat \<Rightarrow> call \<Rightarrow> sechat" where
  "step br s (Login username password) = snd (login br username password s)"
| "step br s Logout = snd (logout s)"
| "step br s (SendMessage room_id text) = snd (sendMessage room_id text s)"
| "step br s (Work rs) = fst (worker rs s)"

definition run :: "(brcall \<Rightarrow> error option) \<Rightarrow> call list \<Rightarrow> sechat \<Rightarrow> sechat" where
  "run br cs s = foldl (step br) s cs"



text \<open>
  The pairs the thread took from the queue, read off its log line
  \<^verbatim>\<open>"Now serving customer %d, %r for room #%s."\<close>.
\<close>

fun served :: "effect list \<Rightarrow> (string \<times> string) list" where
  "served [] = []"
| "served (Log (NowServing n text room_id) # es) = (room_id, text) # served es"
| "served (e # es) = served es"

text \<open>The posts made (url and text) and the sleeps taken, in order.\<close>

fun posts :: "effect list \<Rightarrow> (string \<times> string) list" where
  "posts [] = []"
| "posts (Br (PostSomething url x) # es) = (url, x) # posts es"
| "posts (e # es) = posts es"

fun sleeps :: "effect list \<Rightarrow> int list" where
  "sleeps [] = []"
| "sleeps (Sleep wait # es) = wait # sleeps es"
| "sleeps (e # es) = sleeps es"











section \<open>Events\<close>

text \<open>\<^verbatim>\<open>Event.Types\<close>, an \<^verbatim>\<open>IntEnum\<close>.\<close>

datatype Types =
    message_posted
  | message_edited
  | user_entered
  | user_left
  | room_name_changed
  | message_starred
  | debug_message
  | user_mentioned
  | message_flagged
  | message_deleted
  | file_added
  | moderator_flag
  | user_settings_changed
  | global_notification
  | access_level_changed
  | user_notification
  | invitation
  | message_reply
  | message_moved_out
  | message_moved_in
  | time_break
  | feed_ticker
  | user_suspended
  | user_merged

fun type_value :: "Types \<Rightarrow> int" where
  "type_value message_posted = 1"
| "type_value message_edited = 2"
| "type_value user_entered = 3"
| "type_value user_left = 4"
| "type_value room_name_changed = 5"
| "type_value message_starred = 6"
| "type_value debug_message = 7"
| "type_value user_mentioned = 8"
| "type_value message_flagged = 9"
| "type_value message_deleted = 10"
| "type_value file_added = 11"
| "type_value moderator_flag = 12"
| "type_value user_settings_changed = 13"
| "type_value global_notification = 14"
| "type_value access_level_changed = 15"
| "type_value user_notification = 16"
| "type_value invitation = 17"
| "type_value message_reply = 18"
| "type_value message_moved_out = 19"
| "type_value message_moved_in = 20"
| "type_value time_break = 21"
| "type_value feed_ticker = 22"
| "type_value user_suspended = 29"
| "type_value user_merged = 30"

definition all_Types :: "Types list" where
  "all_Types =
     [message_posted, message_edited, user_entered, user_left, room_name_changed,
      message_starred, debug_message, user_mentioned, message_flagged, message_deleted,
      file_added, moderator_flag, user_settings_changed, global_notification,
      access_level_changed, user_notification, invitation, message_reply,
      message_moved_out, message_moved_in, time_break, feed_ticker, user_suspended,
      user_merged]"

text \<open>\<^verbatim>\<open>Types.by_value()\<close>: the dict from each member's value to the member.\<close>

definition by_value :: "(int \<times> Types) list" where
  "by_value = map (\<lambda>t. (type_value t, t)) all_Types"

text \<open>Truth value of a Python object, as \<^verbatim>\<open>if data\<close> and \<^verbatim>\<open>assert data\<close> take it.\<close>

fun truthy :: "pyval \<Rightarrow> bool" where
  "truthy PNone = False"
| "truthy (PBool b) = b"
| "truthy (PInt n) = (n \<noteq> 0)"
| "truthy (PStr s) = (s \<noteq> [])"
| "truthy (PList xs) = (xs \<noteq> [])"
| "truthy (PDict d) = (d \<noteq> [])"

text \<open>
  \<^verbatim>\<open>data[key]\<close> with a string key: a dict without the key raises \<^verbatim>\<open>KeyError\<close>, any
  other value raises \<^verbatim>\<open>TypeError\<close>.
\<close>

fun getitem :: "pyval \<Rightarrow> string \<Rightarrow> error + pyval" where
  "getitem (PDict d) k = (case map_of d k of None \<Rightarrow> Inl (KeyError k) | Some v \<Rightarrow> Inr v)"
| "getitem _ k = Inl TypeError"

text \<open>\<^verbatim>\<open>d.get(key, default)\<close>; only a dict has the method.\<close>

fun py_get :: "pyval \<Rightarrow> string \<Rightarrow> pyval \<Rightarrow> error + pyval" where
  "py_get (PDict d) k dflt = Inr (case map_of d k of None \<Rightarrow> dflt | Some v \<Rightarrow> v)"
| "py_get _ k dflt = Inl AttributeError"

text \<open>
  What a \<^verbatim>\<open>for\<close> over the value yields: the elements of a list, the keys of a dict, the
  characters of a string; nothing else here is iterable.
\<close>

fun py_iter :: "pyval \<Rightarrow> error + pyval list" where
  "py_iter (PList xs) = Inr xs"
| "py_iter (PDict d) = Inr (map PStr (remdups (map fst d)))"
| "py_iter (PStr s) = Inr (map (\<lambda>c. PStr [c]) s)"
| "py_iter _ = Inl TypeError"

text \<open>
  The attribute \<^verbatim>\<open>type\<close> of an event: a member of \<^verbatim>\<open>Types\<close>, or the value of
  \<^verbatim>\<open>data['event_type']\<close> as it came when no member has it.
\<close>

datatype event_type = Known Types | Raw pyval

text \<open>
  \<^verbatim>\<open>Types.by_value()[self.type]\<close>: \<open>Inr None\<close> is the \<^verbatim>\<open>KeyError\<close> that
  \<^verbatim>\<open>__init__\<close> catches.  \<^verbatim>\<open>True\<close> and \<^verbatim>\<open>False\<close> are the keys 1 and 0; a list or a
  dict cannot be hashed.
\<close>

fun lookup_type :: "pyval \<Rightarrow> error + Types option" where
  "lookup_type (PInt n) = Inr (map_of by_value n)"
| "lookup_type (PBool b) = Inr (map_of by_value (if b then 1 else 0))"
| "lookup_type (PList xs) = Inl TypeError"
| "lookup_type (PDict d) = Inl TypeError"
| "lookup_type _ = Inr None"

text \<open>
  An \<^verbatim>\<open>Event\<close>.  The four attributes of a posted message exist only on such an
  event; \<open>logger\<close> is what the event's own logger was given.
\<close>

record event =
  data :: pyval
  type :: event_type
  event_id :: pyval
  room_id :: pyval
  room_name :: pyval
  time_stamp :: pyval
  content :: "pyval option"
  user_name :: "pyval option"
  user_id :: "pyval option"
  message_id :: "pyval option"
  logger :: "logmsg list"

text \<open>\<^verbatim>\<open>Event.__init__\<close>.\<close>

definition Event_init :: "pyval \<Rightarrow> error + event" where
  "Event_init d =
     (if \<not> truthy d then Inl AssertionError
      else case getitem d ''event_type'' of Inl e \<Rightarrow> Inl e | Inr ty \<Rightarrow>
           case getitem d ''id'' of Inl e \<Rightarrow> Inl e | Inr eid \<Rightarrow>
           case getitem d ''room_id'' of Inl e \<Rightarrow> Inl e | Inr rid \<Rightarrow>
           case getitem d ''room_name'' of Inl e \<Rightarrow> Inl e | Inr rname \<Rightarrow>
           case getitem d ''time_stamp'' of Inl e \<Rightarrow> Inl e | Inr ts \<Rightarrow>
           case lookup_type ty of Inl e \<Rightarrow> Inl e | Inr found \<Rightarrow>
             (let ev = \<lparr>data = d,
                        type = (case found of Some t \<Rightarrow> Known t | None \<Rightarrow> Raw ty),
                        event_id = eid, room_id = rid, room_name = rname, time_stamp = ts,
                        content = None, user_name = None, user_id = None, message_id = None,
                        logger = (case found of Some t \<Rightarrow> [] | None \<Rightarrow> [Unrecognized ty])\<rparr>
              in if type ev = Known message_posted
                 then case getitem d ''content'' of Inl e \<Rightarrow> Inl e | Inr c \<Rightarrow>
                      case getitem d ''user_name'' of Inl e \<Rightarrow> Inl e | Inr un \<Rightarrow>
                      case getitem d ''user_id'' of Inl e \<Rightarrow> Inl e | Inr ui \<Rightarrow>
                      case getitem d ''message_id'' of Inl e \<Rightarrow> Inl e | Inr mi \<Rightarrow>
                        Inr (ev\<lparr>content := Some c, user_name := Some un, user_id := Some ui,
                                message_id := Some mi\<rparr>)
                 else Inr ev))"

text \<open>
  The comprehension \<^verbatim>\<open>[Event(self, data) for data in room_events_data if data]\<close>: the
  first construction that raises ends it.
\<close>

fun build_events :: "pyval list \<Rightarrow> error + event list" where
  "build_events [] = Inr []"
| "build_events (d # ds) =
     (if truthy d
      then (case Event_init d of
              Inl e \<Rightarrow> Inl e
            | Inr ev \<Rightarrow> (case build_events ds of Inl e \<Rightarrow> Inl e | Inr evs \<Rightarrow> Inr (ev # evs)))
      else build_events ds)"

text \<open>\<^verbatim>\<open>_room_events\<close>.\<close>

definition room_events :: "pyval \<Rightarrow> string \<Rightarrow> error + event list" where
  "room_events activity room =
     (case py_get activity (''r'' @ room) (PDict []) of
        Inl e \<Rightarrow> Inl e
      | Inr room_activity \<Rightarrow>
          (case py_get room_activity ''e'' (PList []) of
             Inl e \<Rightarrow> Inl e
           | Inr room_events_data \<Rightarrow>
               (case py_iter room_events_data of
                  Inl e \<Rightarrow> Inl e
                | Inr ds \<Rightarrow> build_events ds)))"

section \<open>The rate-limit pattern on the service's sentence\<close>












section \<open>One attempt of the send loop\<close>

lemma sleep_None_iff: "sleep secs = None \<longleftrightarrow> 0 \<le> secs \<and> secs \<le> SLEEP_MAX"
  by (simp add: sleep_def)

lemma sleep_ADDER [simp]: "sleep 5 = None"
  by (simp add: sleep_def SLEEP_MAX_def)





section \<open>Reading the effects\<close>

lemma posts_append: "posts (xs @ ys) = posts xs @ posts ys"
  by (induction xs rule: posts.induct) auto

lemma sleeps_append: "sleeps (xs @ ys) = sleeps xs @ sleeps ys"
  by (induction xs rule: sleeps.induct) auto

lemma served_append: "served (xs @ ys) = served xs @ served ys"
  by (induction xs rule: served.induct) auto

lemma judge_outcome:
  "judge a x r =
     (case outcome r of
        None \<Rightarrow> Inl (KeyError ''id'')
      | Some Accepted \<Rightarrow> Inr (0, x, [])
      | Some (RateLimited w) \<Rightarrow> Inr (w * 2 + 5, x, [Log (Throttled a w)])
      | Some Duplicate \<Rightarrow> Inr (5, x @ '' '', [Log (DuplicateWait a 5)])
      | Some (UnknownFailure raw) \<Rightarrow> Inr (5, x, [Log (UnknownReason a raw)]))"
  by (simp add: judge_def outcome_def BACKOFF_MULTIPLIER_def BACKOFF_ADDER_def
      split: pyval.splits option.splits)

text \<open>
  C4.  A dict response whose \<^verbatim>\<open>"id"\<close> is \<^verbatim>\<open>None\<close> is the outcome \<open>Duplicate\<close>, not
  \<open>Accepted\<close>: the loop goes on, the next attempt posts the text with one space appended,
  and the sleep before it is exactly 5 seconds.
\<close>

theorem duplicate_retry:
  assumes "map_of d ''id'' = Some PNone"
  shows "outcome (PDict d) = Some Duplicate \<and>
         send_loop room msg attempt (PDict d # rs) s
         = send_loop room (msg @ '' '') (attempt + 1) rs
             (emit [Log (AttemptStart (attempt + 1)),
                    Br (PostSomething (post_url room) msg),
                    Log (DuplicateWait (attempt + 1) 5),
                    Log (WaitingFor (attempt + 1) 5),
                    Sleep 5] s)"
  using assms
  by (simp add: outcome_def judge_def BACKOFF_ADDER_def emit_def Let_def)

theorem duplicate_retry_witness:
  "map_of [(''id'', PNone), (''time'', PInt 7)] ''id'' = Some PNone \<and>
   send_loop ''17'' ''hi'' 0 [PDict [(''id'', PNone), (''time'', PInt 7)]] (init ''SE'')
   = ((init ''SE'')\<lparr>thread := Sending ''17'' ''hi '' 1,
        effects := [Log (AttemptStart 1),
                    Br (PostSomething ''/chats/17/messages/new'' ''hi''),
                    Log (DuplicateWait 1 5), Log (WaitingFor 1 5), Sleep 5]\<rparr>, [])"
proof -
  have h: "map_of [(''id'', PNone), (''time'', PInt 7)] ''id'' = Some PNone" by simp
  show ?thesis
    using h duplicate_retry [OF h, of "''17''" "''hi''" 0 "[]" "init ''SE''"]
    by (simp add: emit_def init_def post_url_def)
qed

text \<open>
  C10.  A response that is neither a string nor a dict ends the loop as a success: no
  further attempt is made (the remaining responses are left), \<open>previous\<close> is the text just
  posted, the last effect is the sleep of 5 seconds, and the thread is back at the queue.
\<close>

theorem other_response_accepted:
  assumes "\<not> is_str response" and "\<not> is_dict response"
  shows "send_loop room msg attempt (response # rs) s
         = (emit [Log (AttemptStart (attempt + 1)),
                  Br (PostSomething (post_url room) msg),
                  Log (Success (attempt + 1) 5),
                  Sleep 5] (s\<lparr>previous := Some msg, thread := Waiting\<rparr>), rs)"
  using assms
  by (cases response) (simp_all add: judge_def BACKOFF_ADDER_def emit_def Let_def)

theorem other_response_accepted_witness:
  "\<not> is_str PNone \<and> \<not> is_dict PNone \<and>
   send_loop ''17'' ''hi'' 0 [PNone, PStr ''later''] (init ''SE'')
   = ((init ''SE'')\<lparr>previous := Some ''hi'', thread := Waiting,
        effects := [Log (AttemptStart 1),
                    Br (PostSomething ''/chats/17/messages/new'' ''hi''),
                    Log (Success 1 5), Sleep 5]\<rparr>, [PStr ''later''])"
proof -
  have h1: "\<not> is_str PNone" and h2: "\<not> is_dict PNone" by simp_all
  show ?thesis
    using h1 h2 other_response_accepted [OF h1 h2, of "''17''" "''hi''" 0 "[PStr ''later'']" "init ''SE''"]
    by (simp add: emit_def init_def post_url_def)
qed

section \<open>The send loop, outcome by outcome\<close>

text \<open>
  One iteration of the loop, read through the outcome of its response: the four cases of
  the backoff and the \<^verbatim>\<open>KeyError\<close> of a dict without \<^verbatim>\<open>"id"\<close>.
\<close>

lemma py_int_nonneg: "0 \<le> py_int ds"
proof -
  have "0 \<le> n \<Longrightarrow> 0 \<le> foldl (\<lambda>n c. 10 * n + int (digit_val c)) n ds" for n
    by (induction ds arbitrary: n) auto
  then show ?thesis by (simp add: py_int_def)
qed

lemma outcome_RateLimited_nonneg: "outcome r = Some (RateLimited w) \<Longrightarrow> 0 \<le> w"
  by (auto simp: outcome_def py_int_nonneg split: pyval.splits option.splits if_splits)

lemma send_loop_Cons:
  "send_loop room msg a (r # rs) s =
     (case outcome r of
        None \<Rightarrow>
          ((emit [Log (AttemptStart (a + 1)), Br (PostSomething (post_url room) msg)] s)
             \<lparr>thread := Died (KeyError ''id'')\<rparr>, rs)
      | Some Accepted \<Rightarrow>
          (emit [Log (AttemptStart (a + 1)), Br (PostSomething (post_url room) msg),
                 Log (Success (a + 1) 5), Sleep 5]
             (s\<lparr>previous := Some msg, thread := Waiting\<rparr>), rs)
      | Some (RateLimited w) \<Rightarrow>
          (case sleep (w * 2 + 5) of
             None \<Rightarrow>
               send_loop room msg (a + 1) rs
                 (emit [Log (AttemptStart (a + 1)), Br (PostSomething (post_url room) msg),
                        Log (Throttled (a + 1) w), Log (WaitingFor (a + 1) (w * 2 + 5)),
                        Sleep (w * 2 + 5)] s)
           | Some e \<Rightarrow>
               ((emit [Log (AttemptStart (a + 1)), Br (PostSomething (post_url room) msg),
                       Log (Throttled (a + 1) w), Log (WaitingFor (a + 1) (w * 2 + 5))] s)
                  \<lparr>thread := Died e\<rparr>, rs))
      | Some Duplicate \<Rightarrow>
          send_loop room (msg @ '' '') (a + 1) rs
            (emit [Log (AttemptStart (a + 1)), Br (PostSomething (post_url room) msg),
                   Log (DuplicateWait (a + 1) 5), Log (WaitingFor (a + 1) 5), Sleep 5] s)
      | Some (UnknownFailure raw) \<Rightarrow>
          send_loop room msg (a + 1) rs
            (emit [Log (AttemptStart (a + 1)), Br (PostSomething (post_url room) msg),
                   Log (UnknownReason (a + 1) raw), Log (WaitingFor (a + 1) 5), Sleep 5] s))"
proof (cases "outcome r")
  case None
  then show ?thesis by (simp add: judge_outcome emit_def Let_def)
next
  case (Some oc)
  show ?thesis
  proof (cases oc)
    case (RateLimited w)
    with Some have "0 \<le> w" by (simp add: outcome_RateLimited_nonneg)
    then have "w * 2 + 5 \<noteq> 0" by simp
    with Some RateLimited show ?thesis
      by (simp add: judge_outcome emit_def Let_def split: option.splits)
  qed (use Some in \<open>simp_all add: judge_outcome emit_def Let_def BACKOFF_ADDER_def\<close>)
qed

declare send_loop.simps(2) [simp del]

lemma send_loop_thread_irrelevant:
  "send_loop room msg a rs (s\<lparr>thread := t\<rparr>) = send_loop room msg a rs s"
proof (induction rs arbitrary: msg a s)
  case Nil
  show ?case by simp
next
  case (Cons r rs)
  have e: "emit es (s\<lparr>thread := t\<rparr>) = (emit es s)\<lparr>thread := t\<rparr>" for es
    by (simp add: emit_def)
  show ?case
    by (simp add: send_loop_Cons e Cons.IH split: option.splits SendOutcome.splits)
qed

lemma send_loop_resume:
  assumes "thread (fst (send_loop room msg a xs s)) = Sending room' msg' a'"
  shows "send_loop room msg a (xs @ ys) s
         = send_loop room' msg' a' ys (fst (send_loop room msg a xs s))"
  using assms
proof (induction xs arbitrary: msg a s)
  case Nil
  then show ?case by (simp add: send_loop_thread_irrelevant)
next
  case (Cons r xs)
  then show ?case
    by (simp add: send_loop_Cons split: option.splits SendOutcome.splits)
      (auto simp add: emit_def)
qed


lemma send_loop_exit:
  assumes "thread (fst (send_loop room msg a rs s)) = Waiting"
  shows "\<exists>pre r. rs = pre @ r # snd (send_loop room msg a rs s) \<and> outcome r = Some Accepted"
  using assms
proof (induction rs arbitrary: msg a s)
  case Nil
  then show ?case by simp
next
  case (Cons x xs)
  show ?case
  proof (cases "outcome x = Some Accepted")
    case True
    then have "snd (send_loop room msg a (x # xs) s) = xs" by (simp add: send_loop_Cons)
    with True show ?thesis by (metis append_Nil)
  next
    case False
    have "\<exists>m b u e. send_loop room msg a (x # xs) s = send_loop room m b xs u
            \<or> thread (fst (send_loop room msg a (x # xs) s)) = Died e"
      using False
      by (cases "outcome x"; cases "the (outcome x)")
        (auto simp add: send_loop_Cons emit_def split: option.splits)
    then obtain m b u where
      "send_loop room msg a (x # xs) s = send_loop room m b xs u" using Cons.prems by auto
    with Cons.IH [of m b u] Cons.prems
    obtain pre r where "xs = pre @ r # snd (send_loop room msg a (x # xs) s)"
      and "outcome r = Some Accepted" by auto
    then have "x # xs = (x # pre) @ r # snd (send_loop room msg a (x # xs) s)" by simp
    with \<open>outcome r = Some Accepted\<close> show ?thesis by blast
  qed
qed

lemma send_loop_unknown_run:
  assumes "\<forall>r \<in> set fs. too_fast_match r = None"
  shows "thread (fst (send_loop room msg a (map PStr fs) s)) = Sending room msg (a + int (length fs))
       \<and> previous (fst (send_loop room msg a (map PStr fs) s)) = previous s
       \<and> posts (effects (fst (send_loop room msg a (map PStr fs) s)))
           = posts (effects s) @ replicate (length fs) (post_url room, msg)
       \<and> sleeps (effects (fst (send_loop room msg a (map PStr fs) s)))
           = sleeps (effects s) @ replicate (length fs) 5"
  using assms
proof (induction fs arbitrary: a s)
  case Nil
  show ?case by simp
next
  case (Cons f fs)
  then have o: "outcome (PStr f) = Some (UnknownFailure f)" by (simp add: outcome_def)
  have ih: "\<forall>r \<in> set fs. too_fast_match r = None" using Cons.prems by simp
  show ?case
    using Cons.IH [OF ih, of "a + 1"]
    by (simp add: send_loop_Cons o emit_def posts_append sleeps_append replicate_app_Cons_same)
qed







section \<open>Retries and the duplicate guard\<close>

text \<open>
  C6.  A string that does not match the rate-limit pattern never ends the loop and never
  kills the thread: after any number of such responses in a row the thread is still in
  the loop with the same text, it has posted that text once per response and slept exactly
  5 seconds after each, and the loop goes on with the next response from there.  The loop
  is left for the queue only by a response whose outcome is \<open>Accepted\<close>.
\<close>

theorem unknown_failure_retried:
  assumes "\<forall>r \<in> set fs. too_fast_match r = None"
  shows "thread (fst (send_loop room msg a (map PStr fs) s))
           = Sending room msg (a + int (length fs))
       \<and> posts (effects (fst (send_loop room msg a (map PStr fs) s)))
           = posts (effects s) @ replicate (length fs) (post_url room, msg)
       \<and> sleeps (effects (fst (send_loop room msg a (map PStr fs) s)))
           = sleeps (effects s) @ replicate (length fs) 5
       \<and> send_loop room msg a (map PStr fs @ rs) s
           = send_loop room msg (a + int (length fs)) rs
               (fst (send_loop room msg a (map PStr fs) s))
       \<and> (thread (fst (send_loop room msg a rs s)) = Waiting \<longrightarrow>
            (\<exists>pre r. rs = pre @ r # snd (send_loop room msg a rs s)
                     \<and> outcome r = Some Accepted))"
proof -
  note run = send_loop_unknown_run [OF assms, of room msg a s]
  have "send_loop room msg a (map PStr fs @ rs) s
        = send_loop room msg (a + int (length fs)) rs
            (fst (send_loop room msg a (map PStr fs) s))"
    using run by (intro send_loop_resume) simp
  moreover have "thread (fst (send_loop room msg a rs s)) = Waiting \<longrightarrow>
      (\<exists>pre r. rs = pre @ r # snd (send_loop room msg a rs s) \<and> outcome r = Some Accepted)"
    using send_loop_exit by blast
  ultimately show ?thesis using run by blast
qed

theorem unknown_failure_retried_witness:
  "too_fast_match ''Oops'' = None \<and> too_fast_match '''' = None
   \<and> thread (fst (send_loop ''17'' ''hi'' 0 [PStr ''Oops'', PStr ''''] (init ''SE'')))
       = Sending ''17'' ''hi'' 2
   \<and> posts (effects (fst (send_loop ''17'' ''hi'' 0 [PStr ''Oops'', PStr ''''] (init ''SE''))))
       = [(''/chats/17/messages/new'', ''hi''), (''/chats/17/messages/new'', ''hi'')]
   \<and> sleeps (effects (fst (send_loop ''17'' ''hi'' 0 [PStr ''Oops'', PStr ''''] (init ''SE''))))
       = [5, 5]"
proof -
  have h: "\<forall>r \<in> set [''Oops'', '''']. too_fast_match r = None"
    by (simp add: too_fast_match_def TOO_FAST_HEAD_def)
  show ?thesis
    using h unknown_failure_retried [OF h, of "''17''" "''hi''" 0 "init ''SE''" "[]"]
    by (simp add: init_def post_url_def)
qed



section \<open>Events of a room\<close>

lemma all_Types_UNIV: "set all_Types = UNIV"
proof -
  have "t \<in> set all_Types" for t
    by (cases t) (simp_all add: all_Types_def)
  then show ?thesis by auto
qed

lemma by_value_None: "map_of by_value n = None \<longleftrightarrow> (\<forall>t. type_value t \<noteq> n)"
proof -
  have "fst ` set by_value = range type_value"
    by (simp add: by_value_def image_image all_Types_UNIV)
  then show ?thesis
    by (auto simp add: map_of_eq_None_iff)
qed

lemma by_value_range:
  "(\<forall>t. type_value t \<noteq> n) \<longleftrightarrow> \<not> (1 \<le> n \<and> n \<le> 22 \<or> n = 29 \<or> n = 30)"
proof -
  have "(\<forall>t. type_value t \<noteq> n) \<longleftrightarrow> n \<notin> set (map type_value all_Types)"
    unfolding set_map all_Types_UNIV by auto
  also have "\<dots> \<longleftrightarrow> \<not> (1 \<le> n \<and> n \<le> 22 \<or> n = 29 \<or> n = 30)"
    unfolding all_Types_def by (simp; arith)
  finally show ?thesis .
qed

lemma build_events_append:
  "build_events (xs @ ys) =
     (case build_events xs of
        Inl e \<Rightarrow> Inl e
      | Inr evs \<Rightarrow> (case build_events ys of Inl e \<Rightarrow> Inl e | Inr evs' \<Rightarrow> Inr (evs @ evs')))"
  by (induction xs) (simp_all split: sum.splits)

lemma Event_init_data: "Event_init d = Inr ev \<Longrightarrow> data ev = d"
  by (auto simp add: Event_init_def Let_def split: if_splits sum.splits)

lemma build_events_data:
  "build_events ds = Inr evs \<Longrightarrow> map data evs = filter truthy ds"
  by (induction ds arbitrary: evs) (auto split: if_splits sum.splits dest: Event_init_data)

lemma build_events_total:
  "(\<forall>d \<in> set ds. truthy d \<longrightarrow> \<not> isl (Event_init d))
   \<Longrightarrow> build_events ds = Inr (map (\<lambda>d. projr (Event_init d)) (filter truthy ds))"
  by (induction ds) (auto split: sum.splits)

lemma build_events_falsy: "filter truthy ds = [] \<Longrightarrow> build_events ds = Inr []"
  by (induction ds) (auto split: if_splits)

text \<open>
  C7.  A record whose \<^verbatim>\<open>event_type\<close> is an integer that no member of \<open>Types\<close> has
  (and that holds the four fields every event is read from) is constructed without an
  exception: the event's \<open>type\<close> is that integer as it came, and the only trace of the
  anomaly is one line given to the event's logger.  In a sequence of records the event
  takes its place between those of the records before and after it, which are built as
  they would be without it.
\<close>

theorem unknown_event_type:
  assumes "\<forall>t. type_value t \<noteq> n"
    and "map_of d ''event_type'' = Some (PInt n)"
    and "map_of d ''id'' = Some i"
    and "map_of d ''room_id'' = Some r"
    and "map_of d ''room_name'' = Some rn"
    and "map_of d ''time_stamp'' = Some ts"
  shows "Event_init (PDict d)
           = Inr \<lparr>data = PDict d, type = Raw (PInt n), event_id = i, room_id = r,
                  room_name = rn, time_stamp = ts, content = None, user_name = None,
                  user_id = None, message_id = None, logger = [Unrecognized (PInt n)]\<rparr>
       \<and> build_events (xs @ PDict d # ys)
           = (case build_events xs of
                Inl e \<Rightarrow> Inl e
              | Inr evs \<Rightarrow>
                  (case build_events ys of
                     Inl e \<Rightarrow> Inl e
                   | Inr evs' \<Rightarrow>
                       Inr (evs @ \<lparr>data = PDict d, type = Raw (PInt n), event_id = i,
                                    room_id = r, room_name = rn, time_stamp = ts,
                                    content = None, user_name = None, user_id = None,
                                    message_id = None, logger = [Unrecognized (PInt n)]\<rparr>
                                 # evs')))"
proof -
  have none: "map_of by_value n = None"
    using assms(1) by (simp add: by_value_None)
  have ne: "d \<noteq> []"
    using assms(2) by auto
  have ev: "Event_init (PDict d)
           = Inr \<lparr>data = PDict d, type = Raw (PInt n), event_id = i, room_id = r,
                  room_name = rn, time_stamp = ts, content = None, user_name = None,
                  user_id = None, message_id = None, logger = [Unrecognized (PInt n)]\<rparr>"
    using assms(2-6) none ne by (simp add: Event_init_def)
  have "build_events (PDict d # ys)
        = (case build_events ys of
             Inl e \<Rightarrow> Inl e
           | Inr evs' \<Rightarrow>
               Inr (\<lparr>data = PDict d, type = Raw (PInt n), event_id = i,
                      room_id = r, room_name = rn, time_stamp = ts,
                      content = None, user_name = None, user_id = None,
                      message_id = None, logger = [Unrecognized (PInt n)]\<rparr> # evs'))"
    using ne by (simp add: ev)
  then have "build_events (xs @ PDict d # ys)
           = (case build_events xs of
                Inl e \<Rightarrow> Inl e
              | Inr evs \<Rightarrow>
                  (case build_events ys of
                     Inl e \<Rightarrow> Inl e
                   | Inr evs' \<Rightarrow>
                       Inr (evs @ \<lparr>data = PDict d, type = Raw (PInt n), event_id = i,
                                    room_id = r, room_name = rn, time_stamp = ts,
                                    content = None, user_name = None, user_id = None,
                                    message_id = None, logger = [Unrecognized (PInt n)]\<rparr>
                                 # evs')))"
    by (simp add: build_events_append split: sum.splits)
  with ev show ?thesis by simp
qed

theorem unknown_event_type_witness:
  "Event_init (PDict [(''event_type'', PInt 9999), (''id'', PInt 7), (''room_id'', PInt 17),
                      (''room_name'', PStr ''Sandbox''), (''time_stamp'', PInt 1400000000)])
     = Inr \<lparr>data = PDict [(''event_type'', PInt 9999), (''id'', PInt 7), (''room_id'', PInt 17),
                           (''room_name'', PStr ''Sandbox''), (''time_stamp'', PInt 1400000000)],
            type = Raw (PInt 9999), event_id = PInt 7, room_id = PInt 17,
            room_name = PStr ''Sandbox'', time_stamp = PInt 1400000000,
            content = None, user_name = None, user_id = None, message_id = None,
            logger = [Unrecognized (PInt 9999)]\<rparr>
   \<and> map_sum id (map type)
       (build_events
          [PDict [(''event_type'', PInt 3), (''id'', PInt 6), (''room_id'', PInt 17),
                  (''room_name'', PStr ''Sandbox''), (''time_stamp'', PInt 1399999999)],
           PDict [(''event_type'', PInt 9999), (''id'', PInt 7), (''room_id'', PInt 17),
                  (''room_name'', PStr ''Sandbox''), (''time_stamp'', PInt 1400000000)],
           PDict [(''event_type'', PInt 4), (''id'', PInt 8), (''room_id'', PInt 17),
                  (''room_name'', PStr ''Sandbox''), (''time_stamp'', PInt 1400000001)]])
     = Inr [Known user_entered, Raw (PInt 9999), Known user_left]"
proof -
  have u: "\<forall>t. type_value t \<noteq> 9999"
  proof
    fix t show "type_value t \<noteq> 9999" by (cases t) simp_all
  qed
  have k: "map_of by_value 3 = Some user_entered" "map_of by_value 4 = Some user_left"
    by (simp_all add: by_value_def all_Types_def)
  have a: "build_events
          [PDict [(''event_type'', PInt 3), (''id'', PInt 6), (''room_id'', PInt 17),
                  (''room_name'', PStr ''Sandbox''), (''time_stamp'', PInt 1399999999)]]
       = Inr [\<lparr>data = PDict [(''event_type'', PInt 3), (''id'', PInt 6), (''room_id'', PInt 17),
                  (''room_name'', PStr ''Sandbox''), (''time_stamp'', PInt 1399999999)],
            type = Known user_entered, event_id = PInt 6, room_id = PInt 17,
            room_name = PStr ''Sandbox'', time_stamp = PInt 1399999999,
            content = None, user_name = None, user_id = None, message_id = None,
            logger = []\<rparr>]"
    by (simp add: Event_init_def k)
  have b: "build_events
          [PDict [(''event_type'', PInt 4), (''id'', PInt 8), (''room_id'', PInt 17),
                  (''room_name'', PStr ''Sandbox''), (''time_stamp'', PInt 1400000001)]]
       = Inr [\<lparr>data = PDict [(''event_type'', PInt 4), (''id'', PInt 8), (''room_id'', PInt 17),
                  (''room_name'', PStr ''Sandbox''), (''time_stamp'', PInt 1400000001)],
            type = Known user_left, event_id = PInt 8, room_id = PInt 17,
            room_name = PStr ''Sandbox'', time_stamp = PInt 1400000001,
            content = None, user_name = None, user_id = None, message_id = None,
            logger = []\<rparr>]"
    by (simp add: Event_init_def k)
  show ?thesis
    using unknown_event_type [OF u, of
        "[(''event_type'', PInt 9999), (''id'', PInt 7), (''room_id'', PInt 17),
          (''room_name'', PStr ''Sandbox''), (''time_stamp'', PInt 1400000000)]"
        "PInt 7" "PInt 17" "PStr ''Sandbox''" "PInt 1400000000"
        "[PDict [(''event_type'', PInt 3), (''id'', PInt 6), (''room_id'', PInt 17),
                  (''room_name'', PStr ''Sandbox''), (''time_stamp'', PInt 1399999999)]]"
        "[PDict [(''event_type'', PInt 4), (''id'', PInt 8), (''room_id'', PInt 17),
                  (''room_name'', PStr ''Sandbox''), (''time_stamp'', PInt 1400000001)]]"]
    by (simp add: a b del: build_events.simps)
qed

text \<open>
  C8.  \<^verbatim>\<open>_room_events\<close> on an activity dict.  Without the key of the room, or with a
  room dict that has no key \<^verbatim>\<open>'e'\<close>, the result is the empty list.  With a list of
  records under \<^verbatim>\<open>'e'\<close>: whenever a list of events is returned, the records they
  were built from are exactly the truthy records, in the order of the list; a list is
  returned whenever every truthy record can be constructed, and it holds the event of
  each of them; and it is empty when no record is truthy, so also for the empty list.
\<close>

theorem room_events_order:
  "(map_of a (''r'' @ room) = None \<longrightarrow> room_events (PDict a) room = Inr [])
   \<and> (map_of a (''r'' @ room) = Some (PDict ra) \<and> map_of ra ''e'' = None \<longrightarrow>
        room_events (PDict a) room = Inr [])
   \<and> (map_of a (''r'' @ room) = Some (PDict ra) \<and> map_of ra ''e'' = Some (PList recs) \<longrightarrow>
        (\<forall>evs. room_events (PDict a) room = Inr evs \<longrightarrow> map data evs = filter truthy recs)
        \<and> ((\<forall>d \<in> set recs. truthy d \<longrightarrow> \<not> isl (Event_init d)) \<longrightarrow>
             room_events (PDict a) room
             = Inr (map (\<lambda>d. projr (Event_init d)) (filter truthy recs)))
        \<and> (filter truthy recs = [] \<longrightarrow> room_events (PDict a) room = Inr []))"
proof -
  have "room_events (PDict a) room = build_events recs"
    if "map_of a (''r'' @ room) = Some (PDict ra)" "map_of ra ''e'' = Some (PList recs)"
    using that by (simp add: room_events_def)
  then show ?thesis
    using build_events_data [of recs] build_events_total [of recs] build_events_falsy [of recs]
    by (auto simp add: room_events_def)
qed

theorem room_events_order_witness:
  "map_sum id (map data)
     (room_events
        (PDict [(''r17'', PDict [(''e'', PList
           [PDict [(''event_type'', PInt 3), (''id'', PInt 6), (''room_id'', PInt 17),
                   (''room_name'', PStr ''Sandbox''), (''time_stamp'', PInt 1399999999)],
            PNone,
            PDict [],
            PDict [(''event_type'', PInt 4), (''id'', PInt 8), (''room_id'', PInt 17),
                   (''room_name'', PStr ''Sandbox''), (''time_stamp'', PInt 1400000001)]])])])
        ''17'')
   = Inr [PDict [(''event_type'', PInt 3), (''id'', PInt 6), (''room_id'', PInt 17),
                 (''room_name'', PStr ''Sandbox''), (''time_stamp'', PInt 1399999999)],
          PDict [(''event_type'', PInt 4), (''id'', PInt 8), (''room_id'', PInt 17),
                 (''room_name'', PStr ''Sandbox''), (''time_stamp'', PInt 1400000001)]]
   \<and> room_events (PDict [(''r5'', PDict [(''e'', PList [PInt 1])])]) ''17'' = Inr []
   \<and> room_events (PDict [(''r17'', PDict [(''t'', PInt 3)])]) ''17'' = Inr []
   \<and> room_events (PDict [(''r17'', PDict [(''e'', PList [])])]) ''17'' = Inr []"
proof -
  let ?e1 = "PDict [(''event_type'', PInt 3), (''id'', PInt 6), (''room_id'', PInt 17),
                   (''room_name'', PStr ''Sandbox''), (''time_stamp'', PInt 1399999999)]"
  let ?e2 = "PDict [(''event_type'', PInt 4), (''id'', PInt 8), (''room_id'', PInt 17),
                   (''room_name'', PStr ''Sandbox''), (''time_stamp'', PInt 1400000001)]"
  let ?recs = "[?e1, PNone, PDict [], ?e2]"
  have k: "map_of by_value 3 = Some user_entered" "map_of by_value 4 = Some user_left"
    by (simp_all add: by_value_def all_Types_def)
  have ok: "\<forall>d \<in> set ?recs. truthy d \<longrightarrow> \<not> isl (Event_init d)"
    by (simp add: Event_init_def k)
  have f: "filter truthy ?recs = [?e1, ?e2]" by simp
  have 1: "room_events (PDict [(''r17'', PDict [(''e'', PList ?recs)])]) ''17''
           = Inr (map (\<lambda>d. projr (Event_init d)) (filter truthy ?recs))"
    using room_events_order [of "[(''r17'', PDict [(''e'', PList ?recs)])]" "''17''"
        "[(''e'', PList ?recs)]" ?recs] ok
    by simp
  have 2: "map data (map (\<lambda>d. projr (Event_init d)) (filter truthy ?recs)) = filter truthy ?recs"
    using room_events_order [of "[(''r17'', PDict [(''e'', PList ?recs)])]" "''17''"
        "[(''e'', PList ?recs)]" ?recs] 1
    by simp
  have 3: "room_events (PDict [(''r5'', PDict [(''e'', PList [PInt 1])])]) ''17'' = Inr []"
    using room_events_order [of "[(''r5'', PDict [(''e'', PList [PInt 1])])]" "''17''"]
    by simp
  have 4: "room_events (PDict [(''r17'', PDict [(''t'', PInt 3)])]) ''17'' = Inr []"
    using room_events_order [of "[(''r17'', PDict [(''t'', PInt 3)])]" "''17''"
        "[(''t'', PInt 3)]"]
    by simp
  have 5: "room_events (PDict [(''r17'', PDict [(''e'', PList [])])]) ''17'' = Inr []"
    using room_events_order [of "[(''r17'', PDict [(''e'', PList [])])]" "''17''"
        "[(''e'', PList [])]" "[]"]
    by simp
  show ?thesis
    unfolding 1 using 2 3 4 5 by (simp only: f map_sum.simps id_apply simp_thms)
qed

section \<open>Logging in, and enqueueing without a session\<close>

lemma login_known_site:
  assumes "site s = ''SE'' \<or> site s = ''SO'' \<or> site s = ''MSE''"
    and "\<not> logged_in s" and "thread s = NotStarted" and "\<forall>c. br c = None"
  shows "fst (login br username password s) = None
       \<and> logged_in (snd (login br username password s))
       \<and> thread (snd (login br username password s)) = Started
       \<and> message_queue (snd (login br username password s)) = message_queue s
       \<and> posts (effects (snd (login br username password s))) = posts (effects s)
       \<and> served (effects (snd (login br username password s))) = served (effects s)"
  using assms
  by (auto simp add: login_def and_then_def br_call_def thread_start_def emit_def
      posts_append served_append)

text \<open>
  C9.  With a site that is none of \<^verbatim>\<open>"SE"\<close>, \<^verbatim>\<open>"SO"\<close>, \<^verbatim>\<open>"MSE"\<close>, \<^verbatim>\<open>login\<close>
  always raises and leaves \<^verbatim>\<open>logged_in\<close>, the thread and the queue as they were: the
  session is not marked logged in and the thread is not started.  When the assertion and
  \<^verbatim>\<open>loginSEOpenID\<close> pass, the exception is the \<^verbatim>\<open>ValueError\<close> that names the site,
  raised after the call of \<^verbatim>\<open>loginSEOpenID\<close> and before anything else is done.
\<close>

theorem login_unknown_site:
  assumes "site s \<noteq> ''SE''" and "site s \<noteq> ''SO''" and "site s \<noteq> ''MSE''"
  shows "fst (login br username password s) \<noteq> None
       \<and> logged_in (snd (login br username password s)) = logged_in s
       \<and> thread (snd (login br username password s)) = thread s
       \<and> message_queue (snd (login br username password s)) = message_queue s
       \<and> (\<not> logged_in s \<and> br (LoginSEOpenID username password) = None \<longrightarrow>
            login br username password s
            = (Some (ValueError (site s)),
               emit [Log LoggingIn, Br (LoginSEOpenID username password)] s))"
  using assms
  by (cases "br (LoginSEOpenID username password)")
    (auto simp add: login_def and_then_def br_call_def emit_def)

theorem login_unknown_site_witness:
  "login (\<lambda>c. None) ''me'' ''secret'' (init ''XX'')
     = (Some (ValueError ''XX''),
        (init ''XX'')\<lparr>effects := [Log LoggingIn, Br (LoginSEOpenID ''me'' ''secret'')]\<rparr>)
   \<and> \<not> logged_in (snd (login (\<lambda>c. None) ''me'' ''secret'' (init ''XX'')))
   \<and> thread (snd (login (\<lambda>c. None) ''me'' ''secret'' (init ''XX''))) = NotStarted"
proof -
  have s: "site (init ''XX'') \<noteq> ''SE''" "site (init ''XX'') \<noteq> ''SO''"
    "site (init ''XX'') \<noteq> ''MSE''"
    by (simp_all add: init_def)
  have i: "site (init ''XX'') = ''XX''" "\<not> logged_in (init ''XX'')"
    "thread (init ''XX'') = NotStarted" "effects (init ''XX'') = []"
    by (simp_all add: init_def)
  show ?thesis
    using login_unknown_site [OF s, of "\<lambda>c. None" "''me''" "''secret''"]
    by (simp add: i emit_def)
qed

lemma worker_loop_Nil:
  "message_queue s = [] \<Longrightarrow> worker_loop rs s = (s\<lparr>thread := Waiting\<rparr>, rs)"
  by (subst worker_loop.simps) simp


lemma worker_loop_Msg:
  "message_queue s = Msg room msg # q \<Longrightarrow>
   worker_loop rs s =
     (if thread (fst (actuallySendMessage room msg rs
            (emit [Log (NowServing (messages s + 1) msg room)]
               (s\<lparr>message_queue := q, messages := messages s + 1\<rparr>)))) = Waiting
      then worker_loop
             (snd (actuallySendMessage room msg rs
                (emit [Log (NowServing (messages s + 1) msg room)]
                   (s\<lparr>message_queue := q, messages := messages s + 1\<rparr>))))
             (fst (actuallySendMessage room msg rs
                (emit [Log (NowServing (messages s + 1) msg room)]
                   (s\<lparr>message_queue := q, messages := messages s + 1\<rparr>))))
      else actuallySendMessage room msg rs
             (emit [Log (NowServing (messages s + 1) msg room)]
                (s\<lparr>message_queue := q, messages := messages s + 1\<rparr>)))"
  by (subst worker_loop.simps) (simp add: Let_def)

declare worker_loop.simps [simp del]

lemma queued_before_login_is_sent:
  assumes "site0 = ''SE'' \<or> site0 = ''SO'' \<or> site0 = ''MSE'' \<or> site0 = ''MSO''"
    and "\<forall>c. br c = None" and "outcome r = Some Accepted"
  shows "posts (effects (run br [SendMessage room msg, Login username password, Work [r]]
                           (init site0)))
         = [(post_url room, msg)]"
proof -
  define s1 where "s1 = snd (sendMessage room msg (init site0))"
  define s2 where "s2 = snd (login br username password s1)"
  have r: "run br [SendMessage room msg, Login username password, Work [r]] (init site0)
           = fst (worker [r] s2)"
    by (simp add: run_def s1_def s2_def)
  have s1: "site s1 = ''SE'' \<or> site s1 = ''SO'' \<or> site s1 = ''MSE''"
    "\<not> logged_in s1" "thread s1 = NotStarted" "message_queue s1 = [Msg room msg]"
    "posts (effects s1) = []" "previous s1 = None"
    using assms(1) by (auto simp add: s1_def sendMessage_def init_def emit_def Let_def)
  have p: "previous s2 = None"
    by (auto simp add: s2_def login_def and_then_def br_call_def thread_start_def emit_def s1(6)
        split: option.splits)
  have s2: "logged_in s2" "thread s2 = Started" "message_queue s2 = [Msg room msg]"
    "posts (effects s2) = []"
    using login_known_site [OF s1(1-3) assms(2), of username password]
    by (simp_all add: s2_def s1)
  show ?thesis
    unfolding r
    by (simp add: worker_def s2 p worker_loop_Msg [where q = "[]"] worker_loop_Nil
        actuallySendMessage_def send_loop_Cons assms(3) emit_def posts_append)
qed

text \<open>
  \<^verbatim>\<open>sendMessage\<close> does not look at \<^verbatim>\<open>logged_in\<close>: in every state of the object it
  returns without an exception and appends the pair to the queue, and it changes neither
  \<^verbatim>\<open>logged_in\<close> nor the thread.  A pair enqueued before \<^verbatim>\<open>login\<close> is posted once
  \<^verbatim>\<open>login\<close> has started the thread; a pair enqueued after the thread has exited stays
  in the queue and is never posted.
\<close>

lemma sendMessage_unguarded:
  "fst (sendMessage room msg s) = None
   \<and> message_queue (snd (sendMessage room msg s)) = message_queue s @ [Msg room msg]
   \<and> logged_in (snd (sendMessage room msg s)) = logged_in s
   \<and> thread (snd (sendMessage room msg s)) = thread s
   \<and> ((site0 = ''SE'' \<or> site0 = ''SO'' \<or> site0 = ''MSE'' \<or> site0 = ''MSO'')
        \<and> (\<forall>c. br c = None) \<and> outcome r = Some Accepted \<longrightarrow>
        posts (effects (run br [SendMessage room msg, Login username password, Work [r]]
                          (init site0)))
        = [(post_url room, msg)])
   \<and> (thread s = Exited \<longrightarrow>
        worker rs (snd (sendMessage room msg s)) = (snd (sendMessage room msg s), rs))"
proof -
  have "worker rs (snd (sendMessage room msg s)) = (snd (sendMessage room msg s), rs)"
    if "thread s = Exited"
    using that by (simp add: worker_def sendMessage_def emit_def Let_def)
  then show ?thesis
    using queued_before_login_is_sent [of site0 br r room msg username password]
    by (simp add: sendMessage_def emit_def Let_def)
qed

lemma sendMessage_unguarded_example:
  "fst (sendMessage ''17'' ''hi'' (init ''SO'')) = None
   \<and> message_queue (snd (sendMessage ''17'' ''hi'' (init ''SO''))) = [Msg ''17'' ''hi'']
   \<and> posts (effects (run (\<lambda>c. None)
        [SendMessage ''17'' ''hi'', Login ''me'' ''secret'', Work [PNone]] (init ''SO'')))
     = [(''/chats/17/messages/new'', ''hi'')]"
proof -
  have o: "outcome PNone = Some Accepted" by (simp add: outcome_def)
  have q: "message_queue (init ''SO'') = []" by (simp add: init_def)
  show ?thesis
    using sendMessage_unguarded [of "''17''" "''hi''" "init ''SO''" "''SO''" "\<lambda>c. None" PNone
        "''me''" "''secret''"]
    by (simp add: o q post_url_def)
qed

text \<open>
  C2.  The claim fails on the code.  On a session that was never logged in, where
  \<^verbatim>\<open>logout\<close> raises \<^verbatim>\<open>AssertionError\<close> and \<^verbatim>\<open>__del__\<close> puts nothing in the
  queue, \<^verbatim>\<open>sendMessage\<close> returns normally and the pair is in the queue; \<^verbatim>\<open>login\<close> then starts the thread, which posts it.  On a
  session that was logged out, \<^verbatim>\<open>sendMessage\<close> returns normally too, and the pair is
  in the queue behind \<^verbatim>\<open>SystemExit\<close>.
\<close>

theorem sendMessage_before_login_sent:
  "\<not> logged_in (init ''SE'')
   \<and> fst (logout (init ''SE'')) = Some AssertionError
   \<and> message_queue (snd (dunder_del (init ''SE''))) = []
   \<and> fst (sendMessage ''17'' ''hi'' (init ''SE'')) = None
   \<and> message_queue (snd (sendMessage ''17'' ''hi'' (init ''SE''))) = [Msg ''17'' ''hi'']
   \<and> posts (effects (run (\<lambda>c. None)
        [SendMessage ''17'' ''hi'', Login ''me'' ''secret'', Work [PDict [(''id'', PInt 1)]]]
        (init ''SE'')))
     = [(''/chats/17/messages/new'', ''hi'')]
   \<and> \<not> logged_in (run (\<lambda>c. None) [Login ''me'' ''secret'', Logout] (init ''SE''))
   \<and> fst (sendMessage ''17'' ''hi''
        (run (\<lambda>c. None) [Login ''me'' ''secret'', Logout] (init ''SE''))) = None
   \<and> message_queue (snd (sendMessage ''17'' ''hi''
        (run (\<lambda>c. None) [Login ''me'' ''secret'', Logout] (init ''SE''))))
     = [SystemExit, Msg ''17'' ''hi'']"
proof -
  have o: "outcome (PDict [(''id'', PInt 1)]) = Some Accepted" by (simp add: outcome_def)
  have a: "posts (effects (run (\<lambda>c. None)
        [SendMessage ''17'' ''hi'', Login ''me'' ''secret'', Work [PDict [(''id'', PInt 1)]]]
        (init ''SE'')))
     = [(''/chats/17/messages/new'', ''hi'')]"
    using queued_before_login_is_sent [of "''SE''" "\<lambda>c. None" "PDict [(''id'', PInt 1)]"
        "''17''" "''hi''" "''me''" "''secret''"] o
    by (simp add: post_url_def)
  have b: "run (\<lambda>c. None) [Login ''me'' ''secret'', Logout] (init ''SE'')
           = \<lparr>site = ''SE'', previous = None, message_queue = [SystemExit], logged_in = False,
              messages = 0, thread = Started,
              effects = [Log LoggingIn, Br (LoginSEOpenID ''me'' ''secret''), Br LoginSECOM,
                         Br LoginChatSE, Log LoggedIn, Log LoggedOut]\<rparr>"
    by (simp add: run_def init_def login_def logout_def and_then_def br_call_def
        thread_start_def emit_def)
  show ?thesis
    unfolding a b by (simp add: init_def sendMessage_def logout_def dunder_del_def emit_def Let_def)
qed

section \<open>Order of delivery\<close>






















end
